theory Spec2Isabelle
  imports Main
begin

section \<open>The client side of playwright-crx: \<^verbatim>\<open>src/client/crx.ts\<close>\<close>

text \<open>
  The file defines three classes: \<^verbatim>\<open>Crx\<close> (the controller holding at most one
  application per mode), \<^verbatim>\<open>CrxApplication\<close> (one running session) and
  \<^verbatim>\<open>CrxRecorder\<close> (the recorder attached to a session).

  The embedding is sequential: every \<^verbatim>\<open>async\<close> method is a function from the
  world before the call to its outcome and the world after it, and runs without another
  method or event handler in between. A promise is represented by the outcome it settles
  with, so \<^verbatim>\<open>await p\<close> reads that outcome; a request that the host never answers is
  not represented. The remote host is an oracle inside the world: \<open>replies w k\<close> is the
  answer to the \<open>k\<close>-th request sent over the connection and \<open>contextPages w a\<close> is what
  \<^verbatim>\<open>context.pages()\<close> of session \<open>a\<close> does at the moment. Every accepted start request
  announces a new application object. Events coming from the remote host are separate
  steps (\<open>CrxApplication_on\<close>, \<open>CrxRecorder_on\<close>) between two method calls.

  Of \<^verbatim>\<open>CrxApplication\<close>, the methods \<^verbatim>\<open>attach\<close>, \<^verbatim>\<open>detach\<close>, \<^verbatim>\<open>detachAll\<close> and
  \<^verbatim>\<open>newPage\<close> are left out: they send one request each and touch no field.
\<close>

subsection \<open>Values, errors and promises\<close>

datatype error = Error (message: string)

datatype 'a promise = Promise (outcome: "error + 'a")

type_synonym app_id = nat

type_synonym Mode = string

datatype jsval =
    Undefined
  | Num int
  | Str string
  | Channel nat
  | PageObj nat
  | Arr "jsval list"
  | Obj "(string \<times> jsval) list"

text \<open>\<^verbatim>\<open>String.prototype.includes\<close>: \<open>sub\<close> occurs in \<open>s\<close> as a contiguous run.\<close>

fun str_includes :: "string \<Rightarrow> string \<Rightarrow> bool" where
  "str_includes [] sub = (sub = [])"
| "str_includes (c # cs) sub = (take (length sub) (c # cs) = sub \<or> str_includes cs sub)"

subsection \<open>Options and requests\<close>

text \<open>
  \<^verbatim>\<open>channels.CrxStartOptions\<close>: the optional \<^verbatim>\<open>incognito\<close> flag and the remaining,
  opaque start configuration. An absent options object is \<open>None\<close>.
\<close>

record CrxStartOptions =
  incognito :: "bool option"
  otherStartOptions :: "(string \<times> jsval) list"

definition emptyStartOptions :: CrxStartOptions where
  "emptyStartOptions = \<lparr>incognito = None, otherStartOptions = []\<rparr>"

text \<open>\<^verbatim>\<open>options?.incognito\<close> as a condition.\<close>

definition wantsIncognito :: "CrxStartOptions option \<Rightarrow> bool" where
  "wantsIncognito options = (case options of None \<Rightarrow> False | Some opts \<Rightarrow> incognito opts = Some True)"

text \<open>\<^verbatim>\<open>options ?? {}\<close>\<close>

definition orEmpty :: "CrxStartOptions option \<Rightarrow> CrxStartOptions" where
  "orEmpty options = (case options of None \<Rightarrow> emptyStartOptions | Some opts \<Rightarrow> opts)"

datatype urlOrUrls = UrlString string | UrlArray "string list"

text \<open>
  \<^verbatim>\<open>channels.CrxApplicationAttachAllOptions\<close> as the caller passes it, and the
  parameters object that \<^verbatim>\<open>attachAll\<close> sends.
\<close>

record AttachAllOptions =
  url :: "urlOrUrls option"
  remaining :: "(string \<times> jsval) list"

record AttachAllParams =
  paramsRemaining :: "(string \<times> jsval) list"
  paramsUrl :: "string list option"

datatype request =
    StartRequest CrxStartOptions
  | CloseRequest app_id
  | AttachAllRequest app_id AttachAllParams
  | SetModeRequest app_id Mode
  | ShowRecorderRequest app_id "(string \<times> jsval) list"
  | HideRecorderRequest app_id
  | ListRequest app_id string
  | LoadRequest app_id string
  | RunRequest app_id string "nat option"

datatype reply = Rejected error | Resolved jsval

subsection \<open>The world\<close>

text \<open>
  The two closures that \<^verbatim>\<open>start\<close> hands to \<^verbatim>\<open>_start\<close> as \<^verbatim>\<open>onClose\<close>:
  \<^verbatim>\<open>() => this._crxAppPromise = undefined\<close> and
  \<^verbatim>\<open>() => this._incognitoCrxPromise = undefined\<close>.
\<close>

datatype listener = Clear_crxAppPromise | Clear_incognitoCrxPromise

datatype emitter = AppEmitter app_id | RecorderEmitter app_id

record world =
  crxAppPromise :: "app_id promise option"
  incognitoCrxPromise :: "app_id promise option"
  listeners :: "app_id \<Rightarrow> (string \<times> listener) list"
  recorderHidden :: "app_id \<Rightarrow> bool"
  recorderMode :: "app_id \<Rightarrow> Mode"
  nextApp :: app_id
  contextPages :: "app_id \<Rightarrow> error + nat list"
  replies :: "nat \<Rightarrow> reply"
  sent :: "request list"
  emitted :: "(emitter \<times> string \<times> jsval list) list"

text \<open>
  \<open>crxAppPromise\<close> and \<open>incognitoCrxPromise\<close> are the two private fields of \<^verbatim>\<open>Crx\<close>.
  \<open>listeners w a\<close> are the handlers registered on session \<open>a\<close> with \<^verbatim>\<open>on\<close>, in
  registration order; \<open>recorderHidden\<close> and \<open>recorderMode\<close> are the \<^verbatim>\<open>_hidden\<close> and
  \<^verbatim>\<open>_mode\<close> fields of the recorder of each session. \<open>nextApp\<close> is the identity the
  next session object gets. \<open>sent\<close> logs the requests in the order they went out and
  \<open>emitted\<close> the events handed to subscribers.
\<close>

type_synonym 'a async = "world \<Rightarrow> (error + 'a) \<times> world"

definition await :: "'a promise \<Rightarrow> 'a async" where
  "await p w = (outcome p, w)"

definition andThen :: "'a async \<Rightarrow> ('a \<Rightarrow> 'b async) \<Rightarrow> 'b async" where
  "andThen m f w = (case m w of (Inl e, w1) \<Rightarrow> (Inl e, w1) | (Inr v, w1) \<Rightarrow> f v w1)"

definition try_catch :: "'a async \<Rightarrow> (error \<Rightarrow> 'a async) \<Rightarrow> 'a async" where
  "try_catch body handler w = (case body w of (Inl e, w1) \<Rightarrow> handler e w1 | (Inr v, w1) \<Rightarrow> (Inr v, w1))"

definition nextReply :: "world \<Rightarrow> reply" where
  "nextReply w = replies w (length (sent w))"

text \<open>A request over the connection: it is logged, and the oracle answers it.\<close>

definition channel_call :: "request \<Rightarrow> jsval async" where
  "channel_call rq w =
     (case nextReply w of
        Rejected e \<Rightarrow> (Inl e, w\<lparr>sent := sent w @ [rq]\<rparr>)
      | Resolved v \<Rightarrow> (Inr v, w\<lparr>sent := sent w @ [rq]\<rparr>))"

subsection \<open>Event emission\<close>

definition run_listener :: "listener \<Rightarrow> world \<Rightarrow> world" where
  "run_listener l w =
     (case l of
        Clear_crxAppPromise \<Rightarrow> w\<lparr>crxAppPromise := None\<rparr>
      | Clear_incognitoCrxPromise \<Rightarrow> w\<lparr>incognitoCrxPromise := None\<rparr>)"

fun run_listeners :: "string \<Rightarrow> (string \<times> listener) list \<Rightarrow> world \<Rightarrow> world" where
  "run_listeners name [] w = w"
| "run_listeners name ((n, l) # ls) w =
     run_listeners name ls (if n = name then run_listener l w else w)"

text \<open>
  \<^verbatim>\<open>app.emit(name, ...args)\<close>: the handlers registered for \<open>name\<close> run in order, and
  the event is handed to the subscribers outside this file.
\<close>

definition app_emit :: "app_id \<Rightarrow> string \<Rightarrow> jsval list \<Rightarrow> world \<Rightarrow> world" where
  "app_emit a name args w =
     run_listeners name (listeners w a) (w\<lparr>emitted := emitted w @ [(AppEmitter a, name, args)]\<rparr>)"

definition recorder_emit :: "app_id \<Rightarrow> string \<Rightarrow> jsval list \<Rightarrow> world \<Rightarrow> world" where
  "recorder_emit a name args w = w\<lparr>emitted := emitted w @ [(RecorderEmitter a, name, args)]\<rparr>"

text \<open>\<^verbatim>\<open>crxApp.on(name, l)\<close>\<close>

definition app_on :: "app_id \<Rightarrow> string \<Rightarrow> listener \<Rightarrow> world \<Rightarrow> world" where
  "app_on a name l w = w\<lparr>listeners := (listeners w)(a := listeners w a @ [(name, l)])\<rparr>"

definition ret :: "'a \<Rightarrow> 'a async" where
  "ret v w = (Inr v, w)"

definition throw :: "error \<Rightarrow> 'a async" where
  "throw e w = (Inl e, w)"

subsection \<open>\<^verbatim>\<open>CrxRecorder\<close>\<close>

datatype recorder_event = HideEvent | ShowEvent | ModeChangedEvent Mode

text \<open>
  The three handlers the constructor registers on the channel (lines 132 to 143). The
  \<^verbatim>\<open>modeChanged\<close> handler passes the event object \<^verbatim>\<open>{mode}\<close> on as it came.
\<close>

definition CrxRecorder_on :: "app_id \<Rightarrow> recorder_event \<Rightarrow> world \<Rightarrow> world" where
  "CrxRecorder_on a ev w =
     (case ev of
        HideEvent \<Rightarrow> recorder_emit a ''hide'' [] (w\<lparr>recorderHidden := (recorderHidden w)(a := True)\<rparr>)
      | ShowEvent \<Rightarrow> recorder_emit a ''show'' [] (w\<lparr>recorderHidden := (recorderHidden w)(a := False)\<rparr>)
      | ModeChangedEvent m \<Rightarrow>
          recorder_emit a ''modechanged'' [Obj [(''mode'', Str m)]]
            (w\<lparr>recorderMode := (recorderMode w)(a := m)\<rparr>))"

definition CrxRecorder_mode :: "app_id \<Rightarrow> world \<Rightarrow> Mode" where
  "CrxRecorder_mode a w = recorderMode w a"

definition CrxRecorder_isHidden :: "app_id \<Rightarrow> world \<Rightarrow> bool" where
  "CrxRecorder_isHidden a w = recorderHidden w a"

definition CrxRecorder_setMode :: "app_id \<Rightarrow> Mode \<Rightarrow> unit async" where
  "CrxRecorder_setMode a m = andThen (channel_call (SetModeRequest a m)) (\<lambda>_. ret ())"

definition CrxRecorder_show :: "app_id \<Rightarrow> (string \<times> jsval) list option \<Rightarrow> unit async" where
  "CrxRecorder_show a options =
     andThen (channel_call (ShowRecorderRequest a (case options of None \<Rightarrow> [] | Some opts \<Rightarrow> opts)))
       (\<lambda>_. ret ())"

definition CrxRecorder_hide :: "app_id \<Rightarrow> unit async" where
  "CrxRecorder_hide a = andThen (channel_call (HideRecorderRequest a)) (\<lambda>_. ret ())"

text \<open>The field \<^verbatim>\<open>name\<close> of a response object.\<close>

definition field :: "string \<Rightarrow> jsval \<Rightarrow> jsval" where
  "field name v =
     (case v of
        Obj fs \<Rightarrow> (case map_of fs name of None \<Rightarrow> Undefined | Some x \<Rightarrow> x)
      | _ \<Rightarrow> Undefined)"

definition CrxRecorder_list :: "app_id \<Rightarrow> string \<Rightarrow> jsval async" where
  "CrxRecorder_list a code = andThen (channel_call (ListRequest a code)) (\<lambda>res. ret (field ''tests'' res))"

definition CrxRecorder_load :: "app_id \<Rightarrow> string \<Rightarrow> unit async" where
  "CrxRecorder_load a code = andThen (channel_call (LoadRequest a code)) (\<lambda>_. ret ())"

text \<open>\<^verbatim>\<open>run(code, page?)\<close>: the page, when given, goes out as its channel.\<close>

definition CrxRecorder_run :: "app_id \<Rightarrow> string \<Rightarrow> nat option \<Rightarrow> unit async" where
  "CrxRecorder_run a code page = andThen (channel_call (RunRequest a code page)) (\<lambda>_. ret ())"

subsection \<open>\<^verbatim>\<open>CrxApplication\<close>\<close>

text \<open>
  The constructor (lines 188 to 201) runs when the connection creates the object that a
  start response announces: a new event emitter with no handler yet, and a new recorder
  with \<^verbatim>\<open>_hidden = true\<close> and \<^verbatim>\<open>_mode = 'none'\<close>. The browsing context of session \<open>a\<close>
  carries the same number \<open>a\<close>.
\<close>

definition new_CrxApplication :: "world \<Rightarrow> app_id \<times> world" where
  "new_CrxApplication w =
     (nextApp w,
      w\<lparr>nextApp := Suc (nextApp w),
        listeners := (listeners w)(nextApp w := []),
        recorderHidden := (recorderHidden w)(nextApp w := True),
        recorderMode := (recorderMode w)(nextApp w := ''none'')\<rparr>)"

datatype app_event = AttachedEvent nat int | DetachedEvent int | ContextCloseEvent

text \<open>\<^verbatim>\<open>Page.from(page)\<close> and \<^verbatim>\<open>from<Page>(p)\<close>: the object behind a channel.\<close>

definition from_channel :: "jsval \<Rightarrow> jsval" where
  "from_channel v = (case v of Channel n \<Rightarrow> PageObj n | _ \<Rightarrow> Undefined)"

text \<open>
  The handlers the constructor wires (lines 192 to 200): \<open>AttachedEvent page tabId\<close> and
  \<open>DetachedEvent tabId\<close> arrive on the channel as \<^verbatim>\<open>{page, tabId}\<close> and \<^verbatim>\<open>{tabId}\<close>,
  \<open>ContextCloseEvent\<close> is the \<^verbatim>\<open>close\<close> event of the owned context.
\<close>

definition CrxApplication_on :: "app_id \<Rightarrow> app_event \<Rightarrow> world \<Rightarrow> world" where
  "CrxApplication_on a ev w =
     (case ev of
        AttachedEvent page tabId \<Rightarrow>
          app_emit a ''attached'' [Obj [(''tabId'', Num tabId), (''page'', from_channel (Channel page))]] w
      | DetachedEvent tabId \<Rightarrow> app_emit a ''detached'' [Num tabId] w
      | ContextCloseEvent \<Rightarrow> app_emit a ''close'' [] w)"

definition CrxApplication_context :: "app_id \<Rightarrow> nat" where
  "CrxApplication_context a = a"

text \<open>\<^verbatim>\<open>context.pages()\<close>: the page list, or the error it throws.\<close>

definition BrowserContext_pages :: "nat \<Rightarrow> nat list async" where
  "BrowserContext_pages c w = (contextPages w c, w)"

definition CrxApplication_pages :: "app_id \<Rightarrow> nat list async" where
  "CrxApplication_pages a = BrowserContext_pages (CrxApplication_context a)"

definition CrxApplication_close :: "app_id \<Rightarrow> unit async" where
  "CrxApplication_close a = andThen (channel_call (CloseRequest a)) (\<lambda>_. ret ())"

text \<open>JavaScript truthiness of \<^verbatim>\<open>options.url\<close>: absent and the empty string are falsy.\<close>

definition truthy_url :: "urlOrUrls option \<Rightarrow> bool" where
  "truthy_url u =
     (case u of None \<Rightarrow> False | Some (UrlString s) \<Rightarrow> s \<noteq> [] | Some (UrlArray us) \<Rightarrow> True)"

text \<open>The parameters \<^verbatim>\<open>attachAll\<close> builds (lines 217 to 219).\<close>

definition attachAll_params :: "AttachAllOptions option \<Rightarrow> AttachAllParams" where
  "attachAll_params options =
     (let opts = (case options of None \<Rightarrow> \<lparr>url = None, remaining = []\<rparr> | Some x \<Rightarrow> x);
          urlOrUrls = url opts;
          remaining = remaining opts;
          url = (if truthy_url urlOrUrls
                 then (case urlOrUrls of
                         Some (UrlString s) \<Rightarrow> Some [s]
                       | Some (UrlArray us) \<Rightarrow> Some us
                       | None \<Rightarrow> None)
                 else None)
      in \<lparr>paramsRemaining = remaining, paramsUrl = url\<rparr>)"

text \<open>
  The \<^verbatim>\<open>pages\<close> array of an \<^verbatim>\<open>attachAll\<close> response. The protocol validator only lets
  responses with that array through.
\<close>

definition response_pages :: "jsval \<Rightarrow> jsval list" where
  "response_pages res = (case field ''pages'' res of Arr ps \<Rightarrow> ps | _ \<Rightarrow> [])"

definition CrxApplication_attachAll :: "app_id \<Rightarrow> AttachAllOptions option \<Rightarrow> jsval list async" where
  "CrxApplication_attachAll a options =
     andThen (channel_call (AttachAllRequest a (attachAll_params options)))
       (\<lambda>res. ret (map from_channel (response_pages res)))"

subsection \<open>\<^verbatim>\<open>Crx\<close>\<close>

text \<open>
  \<^verbatim>\<open>forceReset\<close>, lines 47 to 53: the part that runs before the first \<^verbatim>\<open>await\<close>. It
  returns the two saved promises.
\<close>

definition Crx_forceReset_clear ::
  "world \<Rightarrow> (app_id promise option \<times> app_id promise option) \<times> world" where
  "Crx_forceReset_clear w =
     (let oldCrxPromise = crxAppPromise w;
          oldIncognitoPromise = incognitoCrxPromise w;
          w1 = w\<lparr>crxAppPromise := None\<rparr>;
          w2 = w1\<lparr>incognitoCrxPromise := None\<rparr>
      in ((oldCrxPromise, oldIncognitoPromise), w2))"

text \<open>
  Lines 56 to 63, and again lines 65 to 72: close what an old promise holds. The inner
  handler is \<^verbatim>\<open>.catch(() => {})\<close> on \<^verbatim>\<open>app.close()\<close>, the outer one the
  \<^verbatim>\<open>catch (e)\<close> around both awaits.
\<close>

definition Crx_forceReset_closeOld :: "app_id promise option \<Rightarrow> unit async" where
  "Crx_forceReset_closeOld old =
     (case old of
        None \<Rightarrow> ret ()
      | Some p \<Rightarrow>
          try_catch
            (andThen (await p) (\<lambda>app. try_catch (CrxApplication_close app) (\<lambda>e. ret ())))
            (\<lambda>e. ret ()))"

definition Crx_forceReset :: "unit async" where
  "Crx_forceReset w =
     (case Crx_forceReset_clear w of
        ((oldCrxPromise, oldIncognitoPromise), w1) \<Rightarrow>
          andThen (Crx_forceReset_closeOld oldCrxPromise)
            (\<lambda>_. Crx_forceReset_closeOld oldIncognitoPromise) w1)"

text \<open>
  \<^verbatim>\<open>_start\<close> (lines 110 to 114): the start request goes out; when it is answered, the
  announced application object exists and gets \<open>onClose\<close> as a \<^verbatim>\<open>close\<close> handler.
\<close>

definition Crx__start :: "CrxStartOptions option \<Rightarrow> listener \<Rightarrow> app_id async" where
  "Crx__start options onClose =
     andThen (channel_call (StartRequest (orEmpty options)))
       (\<lambda>res w. case new_CrxApplication w of
                   (crxApp, w1) \<Rightarrow> (Inr crxApp, app_on crxApp ''close'' onClose w1))"

text \<open>
  The \<^verbatim>\<open>try\<close> block of \<^verbatim>\<open>start\<close> (lines 77 to 87). The field receives the promise
  that \<^verbatim>\<open>_start\<close> returned, and that promise is awaited.
\<close>

definition Crx_start_try :: "CrxStartOptions option \<Rightarrow> app_id async" where
  "Crx_start_try options w =
     (if wantsIncognito options then
        (if incognitoCrxPromise w \<noteq> None
         then throw (Error ''incognito crxApplication is already started'') w
         else (case Crx__start options Clear_incognitoCrxPromise w of
                 (r, w1) \<Rightarrow> await (Promise r) (w1\<lparr>incognitoCrxPromise := Some (Promise r)\<rparr>)))
      else
        (if crxAppPromise w \<noteq> None
         then throw (Error ''crxApplication is already started'') w
         else (case Crx__start (Some (orEmpty options)) Clear_crxAppPromise w of
                 (r, w1) \<Rightarrow> await (Promise r) (w1\<lparr>crxAppPromise := Some (Promise r)\<rparr>))))"

text \<open>The condition of line 90.\<close>

definition isAlreadyStarted :: "error \<Rightarrow> bool" where
  "isAlreadyStarted err = (message err \<noteq> [] \<and> str_includes (message err) ''already started'')"

text \<open>The liveness probe, lines 95 to 98.\<close>

definition Crx_start_probe :: "app_id promise \<Rightarrow> app_id async" where
  "Crx_start_probe existingPromise =
     andThen (await existingPromise)
       (\<lambda>app. andThen (BrowserContext_pages (CrxApplication_context app)) (\<lambda>_. ret app))"

text \<open>
  \<^verbatim>\<open>start\<close> (lines 75 to 108). Line 102 calls \<^verbatim>\<open>start\<close> again, and nothing in the
  code bounds how often; the first argument counts the invocations that are still
  allowed, and \<open>None\<close> says that they did not suffice.
\<close>

fun Crx_start :: "nat \<Rightarrow> CrxStartOptions option \<Rightarrow> world \<Rightarrow> ((error + app_id) \<times> world) option" where
  "Crx_start 0 options w = None"
| "Crx_start (Suc fuel) options w =
     (case Crx_start_try options w of
        (Inr app, w1) \<Rightarrow> Some (Inr app, w1)
      | (Inl err, w1) \<Rightarrow>
          (if isAlreadyStarted err then
             (case (if wantsIncognito options then incognitoCrxPromise w1 else crxAppPromise w1) of
                Some existingPromise \<Rightarrow>
                  (case Crx_start_probe existingPromise w1 of
                     (Inr app, w2) \<Rightarrow> Some (Inr app, w2)
                   | (Inl e, w2) \<Rightarrow>
                       (case Crx_forceReset w2 of
                          (Inl e', w3) \<Rightarrow> Some (Inl e', w3)
                        | (Inr u, w3) \<Rightarrow> Crx_start fuel options w3))
              | None \<Rightarrow> Some (Inl err, w1))
           else Some (Inl err, w1)))"

text \<open>\<^verbatim>\<open>get\<close> (lines 116 to 121); \<open>None\<close> is \<^verbatim>\<open>undefined\<close>, for the options and for the result.\<close>

definition Crx_get :: "bool option \<Rightarrow> app_id option async" where
  "Crx_get options w =
     (if options = Some True
      then (case incognitoCrxPromise w of
              None \<Rightarrow> ret None w
            | Some p \<Rightarrow> andThen (await p) (\<lambda>app. ret (Some app)) w)
      else (case crxAppPromise w of
              None \<Rightarrow> ret None w
            | Some p \<Rightarrow> andThen (await p) (\<lambda>app. ret (Some app)) w))"

subsection \<open>Notions used in the statements\<close>

text \<open>The slot of a mode: \<open>True\<close> is incognito.\<close>

definition slotOf :: "bool \<Rightarrow> world \<Rightarrow> app_id promise option" where
  "slotOf inc w = (if inc then incognitoCrxPromise w else crxAppPromise w)"

definition setSlot :: "bool \<Rightarrow> app_id promise option \<Rightarrow> world \<Rightarrow> world" where
  "setSlot inc v w = (if inc then w\<lparr>incognitoCrxPromise := v\<rparr> else w\<lparr>crxAppPromise := v\<rparr>)"

definition onCloseOf :: "bool \<Rightarrow> listener" where
  "onCloseOf inc = (if inc then Clear_incognitoCrxPromise else Clear_crxAppPromise)"

text \<open>The sessions a slot holds: the one its promise settles with, if it does.\<close>

definition held :: "app_id promise option \<Rightarrow> app_id list" where
  "held old = (case old of None \<Rightarrow> [] | Some p \<Rightarrow> (case outcome p of Inl e \<Rightarrow> [] | Inr a \<Rightarrow> [a]))"

text \<open>
  The liveness probe fails: awaiting the cached promise rejects, or
  \<^verbatim>\<open>context.pages()\<close> of the session it holds throws.
\<close>

definition probeFails :: "app_id promise \<Rightarrow> world \<Rightarrow> bool" where
  "probeFails p w =
     (case outcome p of
        Inl e \<Rightarrow> True
      | Inr app \<Rightarrow> (case contextPages w app of Inl e \<Rightarrow> True | Inr pages \<Rightarrow> False))"

text \<open>
  What \<^verbatim>\<open>start\<close> establishes for a slot, and every method and event keeps: a session
  held in a slot exists and carries exactly the \<^verbatim>\<open>close\<close> handler of that slot.
\<close>

definition slot_ok :: "world \<Rightarrow> listener \<Rightarrow> app_id promise option \<Rightarrow> bool" where
  "slot_ok w l slot =
     (case slot of
        None \<Rightarrow> True
      | Some p \<Rightarrow> (case outcome p of
                     Inl e \<Rightarrow> True
                   | Inr a \<Rightarrow> a < nextApp w \<and> listeners w a = [(''close'', l)]))"

definition wf :: "world \<Rightarrow> bool" where
  "wf w = (slot_ok w Clear_crxAppPromise (crxAppPromise w) \<and>
           slot_ok w Clear_incognitoCrxPromise (incognitoCrxPromise w))"

text \<open>The worlds that the branches of \<^verbatim>\<open>start\<close> and \<^verbatim>\<open>forceReset\<close> lead to.\<close>

definition afterReset :: "world \<Rightarrow> world" where
  "afterReset w =
     w\<lparr>crxAppPromise := None, incognitoCrxPromise := None,
       sent := sent w @ map CloseRequest (held (crxAppPromise w) @ held (incognitoCrxPromise w))\<rparr>"

definition afterRejected :: "CrxStartOptions option \<Rightarrow> error \<Rightarrow> world \<Rightarrow> world" where
  "afterRejected options e w =
     setSlot (wantsIncognito options) (Some (Promise (Inl e)))
       (w\<lparr>sent := sent w @ [StartRequest (orEmpty options)]\<rparr>)"

definition afterStarted :: "CrxStartOptions option \<Rightarrow> world \<Rightarrow> world" where
  "afterStarted options w =
     setSlot (wantsIncognito options) (Some (Promise (Inr (nextApp w))))
        (w\<lparr>sent := sent w @ [StartRequest (orEmpty options)],
           nextApp := Suc (nextApp w),
           listeners := (listeners w)(nextApp w := [(''close'', onCloseOf (wantsIncognito options))]),
           recorderHidden := (recorderHidden w)(nextApp w := True),
           recorderMode := (recorderMode w)(nextApp w := ''none'')\<rparr>)"

subsection \<open>Concrete worlds\<close>

text \<open>
  A controller that has started nothing, talking to a host that accepts every request and
  whose contexts answer \<^verbatim>\<open>pages()\<close>.
\<close>

definition quiet_world :: world where
  "quiet_world =
     \<lparr>crxAppPromise = None, incognitoCrxPromise = None,
      listeners = (\<lambda>a. []), recorderHidden = (\<lambda>a. True), recorderMode = (\<lambda>a. ''none''),
      nextApp = 0, contextPages = (\<lambda>a. Inr []), replies = (\<lambda>k. Resolved Undefined),
      sent = [], emitted = []\<rparr>"

text \<open>The same after \<^verbatim>\<open>start()\<close>: session 0 sits in the normal slot.\<close>

definition started_world :: world where
  "started_world = afterStarted None quiet_world"

text \<open>Session 0 is cached, but its connection is gone: \<^verbatim>\<open>pages()\<close> throws.\<close>

definition stale_world :: world where
  "stale_world = started_world\<lparr>contextPages := (\<lambda>a. Inl (Error ''Target closed''))\<rparr>"

text \<open>A host that rejects every request with an unrelated failure.\<close>

definition refusing_world :: world where
  "refusing_world = quiet_world\<lparr>replies := (\<lambda>k. Rejected (Error ''Extension context invalidated''))\<rparr>"

text \<open>Session 0 is cached and stale, and the host rejects every request.\<close>

definition stale_refusing_world :: world where
  "stale_refusing_world =
     stale_world\<lparr>replies := (\<lambda>k. Rejected (Error ''Extension context invalidated''))\<rparr>"

text \<open>A host that answers every request with its own \<^verbatim>\<open>already started\<close> failure.\<close>

definition already_started_world :: world where
  "already_started_world =
     quiet_world\<lparr>replies := (\<lambda>k. Rejected (Error ''crxApplication is already started''))\<rparr>"

text \<open>After \<^verbatim>\<open>forceReset\<close> and another \<^verbatim>\<open>start()\<close>: session 1 sits in the normal slot.\<close>

definition restarted_world :: world where
  "restarted_world = afterStarted None (afterReset started_world)"

subsection \<open>Runs of the recorder\<close>

text \<open>
  What can happen to the recorder of a session: a caller invokes one of its methods, or
  one of the three events arrives on the channel.
\<close>

datatype recorder_action =
    CallSetMode Mode
  | CallShow "(string \<times> jsval) list option"
  | CallHide
  | CallList string
  | CallLoad string
  | CallRun string "nat option"
  | Arrives recorder_event

definition recorder_step :: "app_id \<Rightarrow> recorder_action \<Rightarrow> world \<Rightarrow> world" where
  "recorder_step a act w =
     (case act of
        CallSetMode m \<Rightarrow> snd (CrxRecorder_setMode a m w)
      | CallShow options \<Rightarrow> snd (CrxRecorder_show a options w)
      | CallHide \<Rightarrow> snd (CrxRecorder_hide a w)
      | CallList code \<Rightarrow> snd (CrxRecorder_list a code w)
      | CallLoad code \<Rightarrow> snd (CrxRecorder_load a code w)
      | CallRun code page \<Rightarrow> snd (CrxRecorder_run a code page w)
      | Arrives ev \<Rightarrow> CrxRecorder_on a ev w)"

fun recorder_run :: "app_id \<Rightarrow> recorder_action list \<Rightarrow> world \<Rightarrow> world" where
  "recorder_run a [] w = w"
| "recorder_run a (act # acts) w = recorder_run a acts (recorder_step a act w)"

text \<open>
  The state machine as the specification words it, on the pair (hidden, mode):
  \<^verbatim>\<open>hide\<close> makes it hidden, \<^verbatim>\<open>show\<close> visible, \<^verbatim>\<open>modeChanged\<close> sets the mode, and a
  command changes nothing.
\<close>

fun spec_recorder_step :: "recorder_action \<Rightarrow> bool \<times> Mode \<Rightarrow> bool \<times> Mode" where
  "spec_recorder_step (Arrives HideEvent) (h, m) = (True, m)"
| "spec_recorder_step (Arrives ShowEvent) (h, m) = (False, m)"
| "spec_recorder_step (Arrives (ModeChangedEvent m')) (h, m) = (h, m')"
| "spec_recorder_step act (h, m) = (h, m)"

fun spec_recorder :: "recorder_action list \<Rightarrow> bool \<times> Mode \<Rightarrow> bool \<times> Mode" where
  "spec_recorder [] st = st"
| "spec_recorder (act # acts) st = spec_recorder acts (spec_recorder_step act st)"

section \<open>Basic facts\<close>

lemmas async_defs = await_def andThen_def try_catch_def ret_def throw_def channel_call_def

lemma local_already_started:
  "isAlreadyStarted (Error ''crxApplication is already started'')"
  "isAlreadyStarted (Error ''incognito crxApplication is already started'')"
  by (simp_all add: isAlreadyStarted_def)

lemma closeOld_result:
  "Crx_forceReset_closeOld old w = (Inr (), w\<lparr>sent := sent w @ map CloseRequest (held old)\<rparr>)"
  by (auto simp: Crx_forceReset_closeOld_def CrxApplication_close_def async_defs held_def
      split: option.splits sum.splits reply.splits)

lemma forceReset_result: "Crx_forceReset w = (Inr (), afterReset w)"
  by (simp add: Crx_forceReset_def Crx_forceReset_clear_def closeOld_result andThen_def
      afterReset_def)

lemma start_try_occupied:
  "slotOf (wantsIncognito options) w \<noteq> None \<Longrightarrow>
   Crx_start_try options w =
     (Inl (Error (if wantsIncognito options then ''incognito crxApplication is already started''
                  else ''crxApplication is already started'')), w)"
  by (auto simp: Crx_start_try_def slotOf_def throw_def)

lemma start_try_rejected:
  "slotOf (wantsIncognito options) w = None \<Longrightarrow> nextReply w = Rejected e \<Longrightarrow>
   Crx_start_try options w = (Inl e, afterRejected options e w)"
  by (cases "wantsIncognito options")
     (simp_all add: Crx_start_try_def slotOf_def setSlot_def Crx__start_def async_defs orEmpty_def
       afterRejected_def)

lemma start_try_resolved:
  "slotOf (wantsIncognito options) w = None \<Longrightarrow> nextReply w = Resolved v \<Longrightarrow>
   Crx_start_try options w = (Inr (nextApp w), afterStarted options w)"
  by (cases "wantsIncognito options")
     (simp_all add: Crx_start_try_def slotOf_def setSlot_def Crx__start_def async_defs orEmpty_def
       new_CrxApplication_def app_on_def onCloseOf_def afterStarted_def)

lemma slotOf_afterRejected:
  "slotOf (wantsIncognito options) (afterRejected options e w) = Some (Promise (Inl e))"
  by (simp add: slotOf_def afterRejected_def setSlot_def)

text \<open>One invocation of \<^verbatim>\<open>start\<close>, branch by branch.\<close>

lemma start_unfold:
  "Crx_start (Suc fuel) options w =
     (case slotOf (wantsIncognito options) w of
        None \<Rightarrow>
          (case nextReply w of
             Rejected e \<Rightarrow>
               if isAlreadyStarted e
               then Crx_start fuel options (afterReset (afterRejected options e w))
               else Some (Inl e, afterRejected options e w)
           | Resolved v \<Rightarrow> Some (Inr (nextApp w), afterStarted options w))
      | Some p \<Rightarrow>
          (case outcome p of
             Inl e \<Rightarrow> Crx_start fuel options (afterReset w)
           | Inr app \<Rightarrow>
               (case contextPages w app of
                  Inl e \<Rightarrow> Crx_start fuel options (afterReset w)
                | Inr pages \<Rightarrow> Some (Inr app, w))))"
proof (cases "slotOf (wantsIncognito options) w")
  case None
  have "slotOf (wantsIncognito options) (afterRejected options e w) = Some (Promise (Inl e))" for e
    by (rule slotOf_afterRejected)
  then show ?thesis
    using None
    by (simp add: start_try_rejected start_try_resolved slotOf_def Crx_start_probe_def
        async_defs forceReset_result split: reply.splits if_splits)
next
  case (Some p)
  then have "slotOf (wantsIncognito options) w \<noteq> None" by simp
  from start_try_occupied [OF this] Some show ?thesis
    by (simp add: local_already_started slotOf_def Crx_start_probe_def async_defs
        BrowserContext_pages_def CrxApplication_context_def forceReset_result
        split: sum.splits if_splits)
qed

lemma wf_afterReset: "wf (afterReset w)"
  by (simp add: wf_def afterReset_def slot_ok_def)

lemma wf_afterStarted: "wf w \<Longrightarrow> wf (afterStarted options w)"
  by (auto simp: wf_def afterStarted_def slot_ok_def setSlot_def onCloseOf_def
      split: option.splits sum.splits)

lemma wf_afterRejected: "wf w \<Longrightarrow> wf (afterRejected options e w)"
  by (auto simp: wf_def afterRejected_def slot_ok_def setSlot_def
      split: option.splits sum.splits)

lemma start_wf:
  "Crx_start fuel options w = Some (r, w') \<Longrightarrow> wf w \<Longrightarrow> wf w'"
proof (induction fuel arbitrary: w)
  case 0
  then show ?case by simp
next
  case (Suc fuel)
  from Suc.prems show ?case
    by (auto simp: start_unfold wf_afterStarted wf_afterRejected
        simp del: Crx_start.simps
        intro: Suc.IH wf_afterReset
        split: option.splits reply.splits sum.splits if_splits)
qed


lemma wf_empty: "crxAppPromise w = None \<Longrightarrow> incognitoCrxPromise w = None \<Longrightarrow> wf w"
  by (simp add: wf_def slot_ok_def)

lemma wf_forceReset: "wf (snd (Crx_forceReset w))"
  by (simp add: forceReset_result wf_afterReset)

lemma wf_run_listener: "wf w \<Longrightarrow> wf (run_listener l w)"
  by (cases l) (auto simp: run_listener_def wf_def slot_ok_def split: option.splits sum.splits)

lemma wf_run_listeners: "wf w \<Longrightarrow> wf (run_listeners name ls w)"
  by (induction ls arbitrary: w) (auto simp: wf_run_listener)

lemma wf_app_event: "wf w \<Longrightarrow> wf (CrxApplication_on a ev w)"
proof -
  assume "wf w"
  then have "wf (w\<lparr>emitted := x\<rparr>)" for x
    by (auto simp: wf_def slot_ok_def split: option.splits sum.splits)
  then show ?thesis
    by (cases ev) (simp_all add: CrxApplication_on_def app_emit_def wf_run_listeners)
qed

lemma wf_recorder_event: "wf w \<Longrightarrow> wf (CrxRecorder_on a ev w)"
  by (cases ev)
     (auto simp: CrxRecorder_on_def recorder_emit_def wf_def slot_ok_def
       split: option.splits sum.splits)

lemma wf_sent: "wf (w\<lparr>sent := x\<rparr>) = wf w"
  by (auto simp: wf_def slot_ok_def split: option.splits sum.splits)

lemma wf_request: "wf w \<Longrightarrow> wf (snd (andThen (channel_call rq) (\<lambda>v. ret (f v)) w))"
  by (simp add: async_defs wf_sent split: reply.splits)

lemma wf_close_get:
  "wf w \<Longrightarrow> wf (snd (CrxApplication_close a w))"
  "wf w \<Longrightarrow> wf (snd (Crx_get inc w))"
  by (simp_all add: CrxApplication_close_def Crx_get_def async_defs wf_sent
      split: option.splits sum.splits reply.splits)

lemma emitted_run_listeners: "emitted (run_listeners name ls w) = emitted w"
proof (induction ls arbitrary: w)
  case Nil
  then show ?case by simp
next
  case (Cons nl ls)
  obtain n l where nl: "nl = (n, l)"
    by (cases nl)
  have "emitted (run_listener l w) = emitted w"
    by (cases l) (simp_all add: run_listener_def)
  with Cons.IH nl show ?case
    by simp
qed

text \<open>What a run of \<^verbatim>\<open>start\<close> leaves alone, and where its session ends up.\<close>

lemma start_keeps:
  "Crx_start fuel options w = Some (r, w') \<Longrightarrow>
   emitted w' = emitted w \<and> replies w' = replies w \<and> nextApp w \<le> nextApp w' \<and>
   (\<forall>x<nextApp w. listeners w' x = listeners w x)"
proof (induction fuel arbitrary: w)
  case 0
  then show ?case by simp
next
  case (Suc fuel)
  have reset: "emitted (afterReset u) = emitted u \<and> replies (afterReset u) = replies u \<and>
      nextApp (afterReset u) = nextApp u \<and> listeners (afterReset u) = listeners u" for u
    by (simp add: afterReset_def)
  have rejected: "emitted (afterRejected options e w) = emitted w \<and>
      replies (afterRejected options e w) = replies w \<and>
      nextApp (afterRejected options e w) = nextApp w \<and>
      listeners (afterRejected options e w) = listeners w" for e
    by (simp add: afterRejected_def setSlot_def)
  have started: "emitted (afterStarted options w) = emitted w \<and>
      replies (afterStarted options w) = replies w \<and>
      nextApp (afterStarted options w) = Suc (nextApp w) \<and>
      (\<forall>x<nextApp w. listeners (afterStarted options w) x = listeners w x)"
    by (simp add: afterStarted_def setSlot_def)
  from Suc.prems consider
      (retry) "Crx_start fuel options (afterReset w) = Some (r, w')"
    | (retry') e where "Crx_start fuel options (afterReset (afterRejected options e w)) = Some (r, w')"
    | (failed) e where "w' = afterRejected options e w"
    | (fresh) "w' = afterStarted options w"
    | (cached) "w' = w"
    by (auto simp: start_unfold simp del: Crx_start.simps
        split: option.splits reply.splits sum.splits if_splits)
  then show ?case
  proof cases
    case retry
    from Suc.IH [OF retry] reset [of w] show ?thesis by simp
  next
    case (retry' e)
    from Suc.IH [OF retry'] reset [of "afterRejected options e w"] rejected [of e]
    show ?thesis by simp
  next
    case (failed e)
    with rejected [of e] show ?thesis by simp
  next
    case fresh
    with started show ?thesis by simp
  next
    case cached
    then show ?thesis by simp
  qed
qed

lemma start_slot:
  "Crx_start fuel options w = Some (Inr b, w') \<Longrightarrow>
   slotOf (wantsIncognito options) w' = Some (Promise (Inr b))"
proof (induction fuel arbitrary: w)
  case 0
  then show ?case by simp
next
  case (Suc fuel)
  have started: "slotOf (wantsIncognito options) (afterStarted options w) =
      Some (Promise (Inr (nextApp w)))"
    by (simp add: afterStarted_def setSlot_def slotOf_def)
  have cached: "p = Promise (Inr b)" if "outcome p = Inr b" for p :: "app_id promise"
    using that by (cases p) simp
  from Suc.prems show ?case
    by (auto simp: start_unfold started simp del: Crx_start.simps
        intro: Suc.IH cached
        split: option.splits reply.splits sum.splits if_splits)
qed

text \<open>
  Two callers in a row: the session the first \<^verbatim>\<open>start\<close> returned is what the second
  one returns, as long as its context answers.
\<close>

lemma start_twice_same_session:
  assumes "Crx_start fuel options w = Some (Inr a, w1)"
    and "contextPages w1 a = Inr pages"
  shows "Crx_start (Suc fuel') options w1 = Some (Inr a, w1)"
  using start_slot [OF assms(1)] assms(2)
  by (simp add: start_unfold del: Crx_start.simps)

lemma start_from_empty_is_new:
  "slotOf (wantsIncognito options) w = None \<Longrightarrow>
   Crx_start fuel options w = Some (Inr b, w') \<Longrightarrow> nextApp w \<le> b"
proof (induction fuel arbitrary: w)
  case 0
  then show ?case by simp
next
  case (Suc fuel)
  have empty: "slotOf (wantsIncognito options) (afterReset u) = None" for u
    by (simp add: afterReset_def slotOf_def)
  have same: "nextApp (afterReset (afterRejected options e w)) = nextApp w" for e
    by (simp add: afterReset_def afterRejected_def setSlot_def)
  from Suc.prems consider
      (retry) e where "Crx_start fuel options (afterReset (afterRejected options e w)) = Some (Inr b, w')"
    | (fresh) "b = nextApp w"
    by (auto simp: start_unfold simp del: Crx_start.simps split: reply.splits if_splits)
  then show ?case
  proof cases
    case (retry e)
    from Suc.IH [OF empty retry] same [of e] show ?thesis by simp
  next
    case fresh
    then show ?thesis by simp
  qed
qed

text \<open>
  Without a host failure that mentions \<^verbatim>\<open>already started\<close>, two invocations are always
  enough: \<^verbatim>\<open>start\<close> returns after at most one reset.
\<close>

lemma start_returns_within_one_retry:
  assumes "\<forall>k e. replies w k = Rejected e \<longrightarrow> \<not> isAlreadyStarted e"
  shows "\<exists>res. Crx_start (Suc (Suc fuel)) options w = Some res"
proof -
  have one: "\<exists>res. Crx_start (Suc k) options u = Some res"
    if "slotOf (wantsIncognito options) u = None" "replies u = replies w" for u k
    using that assms
    by (auto simp: start_unfold nextReply_def simp del: Crx_start.simps split: reply.splits)
  have "slotOf (wantsIncognito options) (afterReset w) = None"
    and "replies (afterReset w) = replies w"
    by (simp_all add: afterReset_def slotOf_def)
  then have retry: "\<exists>res. Crx_start (Suc fuel) options (afterReset w) = Some res"
    by (rule one)
  show ?thesis
  proof (cases "slotOf (wantsIncognito options) w")
    case None
    then show ?thesis by (rule one) simp
  next
    case (Some p)
    with retry show ?thesis
      by (simp add: start_unfold [of "Suc fuel"] del: Crx_start.simps split: sum.splits)
  qed
qed

text \<open>
  A host that answers every start request with a failure mentioning \<^verbatim>\<open>already started\<close>
  keeps \<^verbatim>\<open>start\<close> resetting and retrying: no number of invocations suffices.
\<close>

lemma start_loops:
  assumes "slotOf (wantsIncognito options) w = None"
    and "\<forall>k. \<exists>e. replies w k = Rejected e \<and> isAlreadyStarted e"
  shows "Crx_start fuel options w = None"
  using assms
proof (induction fuel arbitrary: w)
  case 0
  then show ?case by simp
next
  case (Suc fuel)
  from Suc.prems(2) obtain e where e: "nextReply w = Rejected e" "isAlreadyStarted e"
    unfolding nextReply_def by blast
  have empty: "slotOf (wantsIncognito options) (afterReset (afterRejected options e w)) = None"
    by (simp add: afterReset_def slotOf_def)
  have same: "replies (afterReset (afterRejected options e w)) = replies w"
    by (simp add: afterReset_def afterRejected_def setSlot_def)
  have "Crx_start (Suc fuel) options w =
      Crx_start fuel options (afterReset (afterRejected options e w))"
    using Suc.prems(1) e by (simp add: start_unfold del: Crx_start.simps)
  also have "\<dots> = None"
    using Suc.prems(2) by (intro Suc.IH empty) (simp add: same)
  finally show ?case .
qed

section \<open>The session controller\<close>

text \<open>
  C1. When \<^verbatim>\<open>start\<close> is called for a mode whose slot is not empty, and the probe
  succeeds (the cached promise fulfils with a session and \<^verbatim>\<open>context().pages()\<close> of that
  session returns), \<^verbatim>\<open>start\<close> returns that very session and changes nothing; every
  further caller in the same situation gets the same session.
\<close>

theorem start_returns_cached_session:
  assumes "slotOf (wantsIncognito options) w = Some p"
    and "outcome p = Inr app"
    and "contextPages w app = Inr pages"
  shows "Crx_start (Suc fuel) options w = Some (Inr app, w)"
  using assms by (simp add: start_unfold del: Crx_start.simps)

theorem start_returns_cached_session_witness:
  "slotOf (wantsIncognito None) started_world = Some (Promise (Inr 0)) \<and>
   contextPages started_world 0 = Inr [] \<and>
   Crx_start (Suc 0) None started_world = Some (Inr 0, started_world)"
proof -
  have slot: "slotOf (wantsIncognito None) started_world = Some (Promise (Inr 0))"
    by (simp add: started_world_def afterStarted_def quiet_world_def setSlot_def slotOf_def
        wantsIncognito_def)
  have out: "outcome (Promise (Inr 0 :: error + app_id)) = Inr 0"
    by simp
  have pages: "contextPages started_world 0 = Inr []"
    by (simp add: started_world_def afterStarted_def quiet_world_def setSlot_def
        wantsIncognito_def)
  from start_returns_cached_session [OF slot out pages, of 0] slot pages
  show ?thesis by simp
qed

text \<open>
  C2 (amended). When \<^verbatim>\<open>start\<close> finds the slot of its mode occupied and the probe
  fails, it runs \<^verbatim>\<open>forceReset\<close>, which succeeds, empties both slots and sends a close
  request to each session the slots held, and then calls \<^verbatim>\<open>start\<close> again with the same
  options. When the host accepts the start request of that second call, the caller gets
  a session that did not exist before, now in the slot of its mode, and no failure. When
  the host rejects it with a failure whose message does not contain
  \<^verbatim>\<open>already started\<close>, the caller gets that failure of the host.
\<close>

theorem start_recovers_from_stale_session:
  assumes "slotOf (wantsIncognito options) w = Some p"
    and "probeFails p w"
    and "wf w"
  shows "Crx_start (Suc fuel) options w = Crx_start fuel options (snd (Crx_forceReset w)) \<and>
         fst (Crx_forceReset w) = Inr () \<and>
         crxAppPromise (snd (Crx_forceReset w)) = None \<and>
         incognitoCrxPromise (snd (Crx_forceReset w)) = None \<and>
         sent (snd (Crx_forceReset w)) =
           sent w @ map CloseRequest (held (crxAppPromise w) @ held (incognitoCrxPromise w)) \<and>
         (\<forall>v. nextReply (snd (Crx_forceReset w)) = Resolved v \<longrightarrow>
            (case Crx_start (Suc (Suc fuel)) options w of
               None \<Rightarrow> False
             | Some (r, w') \<Rightarrow>
                 r = Inr (nextApp w) \<and>
                 nextApp w \<notin> set (held (crxAppPromise w) @ held (incognitoCrxPromise w)) \<and>
                 slotOf (wantsIncognito options) w' = Some (Promise (Inr (nextApp w))) \<and>
                 slotOf (\<not> wantsIncognito options) w' = None \<and>
                 sent w' = sent (snd (Crx_forceReset w)) @ [StartRequest (orEmpty options)])) \<and>
         (\<forall>e. nextReply (snd (Crx_forceReset w)) = Rejected e \<longrightarrow> \<not> isAlreadyStarted e \<longrightarrow>
            (case Crx_start (Suc (Suc fuel)) options w of
               None \<Rightarrow> False
             | Some (r, w') \<Rightarrow>
                 r = Inl e \<and>
                 slotOf (wantsIncognito options) w' = Some (Promise (Inl e)) \<and>
                 slotOf (\<not> wantsIncognito options) w' = None \<and>
                 sent w' = sent (snd (Crx_forceReset w)) @ [StartRequest (orEmpty options)]))"
proof -
  have retry: "Crx_start (Suc k) options w = Crx_start k options (afterReset w)" for k
    using assms(1,2)
    by (simp add: start_unfold probeFails_def del: Crx_start.simps split: sum.splits)
  have empty: "slotOf (wantsIncognito options) (afterReset w) = None"
    by (simp add: slotOf_def afterReset_def)
  have fresh: "nextApp w \<notin> set (held (crxAppPromise w) @ held (incognitoCrxPromise w))"
    using assms(3)
    by (auto simp: wf_def slot_ok_def held_def split: option.splits sum.splits)
  have started: "Crx_start (Suc (Suc fuel)) options w =
      Some (Inr (nextApp w), afterStarted options (afterReset w))"
    if "nextReply (afterReset w) = Resolved v" for v
  proof -
    have "nextApp (afterReset w) = nextApp w"
      by (simp add: afterReset_def)
    with that empty
    have "Crx_start (Suc fuel) options (afterReset w) =
        Some (Inr (nextApp w), afterStarted options (afterReset w))"
      by (simp add: start_unfold del: Crx_start.simps)
    with retry [of "Suc fuel"] show ?thesis
      by simp
  qed
  have refused: "Crx_start (Suc (Suc fuel)) options w =
      Some (Inl e, afterRejected options e (afterReset w))"
    if "nextReply (afterReset w) = Rejected e" "\<not> isAlreadyStarted e" for e
  proof -
    from that empty
    have "Crx_start (Suc fuel) options (afterReset w) =
        Some (Inl e, afterRejected options e (afterReset w))"
      by (simp add: start_unfold del: Crx_start.simps)
    with retry [of "Suc fuel"] show ?thesis
      by simp
  qed
  have after: "slotOf (wantsIncognito options) (afterStarted options (afterReset w)) =
        Some (Promise (Inr (nextApp w))) \<and>
      slotOf (\<not> wantsIncognito options) (afterStarted options (afterReset w)) = None \<and>
      sent (afterStarted options (afterReset w)) =
        sent (afterReset w) @ [StartRequest (orEmpty options)]"
    by (simp add: slotOf_def afterStarted_def afterReset_def setSlot_def)
  have after': "slotOf (wantsIncognito options) (afterRejected options e (afterReset w)) =
        Some (Promise (Inl e)) \<and>
      slotOf (\<not> wantsIncognito options) (afterRejected options e (afterReset w)) = None \<and>
      sent (afterRejected options e (afterReset w)) =
        sent (afterReset w) @ [StartRequest (orEmpty options)]" for e
    by (simp add: slotOf_def afterRejected_def afterReset_def setSlot_def)
  have first: "Crx_start (Suc fuel) options w = Crx_start fuel options (snd (Crx_forceReset w)) \<and>
      fst (Crx_forceReset w) = Inr () \<and>
      crxAppPromise (snd (Crx_forceReset w)) = None \<and>
      incognitoCrxPromise (snd (Crx_forceReset w)) = None \<and>
      sent (snd (Crx_forceReset w)) =
        sent w @ map CloseRequest (held (crxAppPromise w) @ held (incognitoCrxPromise w))"
    using retry [of fuel] by (simp add: forceReset_result afterReset_def)
  have accepted: "case Crx_start (Suc (Suc fuel)) options w of
        None \<Rightarrow> False
      | Some (r, w') \<Rightarrow>
          r = Inr (nextApp w) \<and>
          nextApp w \<notin> set (held (crxAppPromise w) @ held (incognitoCrxPromise w)) \<and>
          slotOf (wantsIncognito options) w' = Some (Promise (Inr (nextApp w))) \<and>
          slotOf (\<not> wantsIncognito options) w' = None \<and>
          sent w' = sent (snd (Crx_forceReset w)) @ [StartRequest (orEmpty options)]"
    if "nextReply (snd (Crx_forceReset w)) = Resolved v" for v
    using that fresh after started [of v] by (simp add: forceReset_result)
  have rejected: "case Crx_start (Suc (Suc fuel)) options w of
        None \<Rightarrow> False
      | Some (r, w') \<Rightarrow>
          r = Inl e \<and>
          slotOf (wantsIncognito options) w' = Some (Promise (Inl e)) \<and>
          slotOf (\<not> wantsIncognito options) w' = None \<and>
          sent w' = sent (snd (Crx_forceReset w)) @ [StartRequest (orEmpty options)]"
    if "nextReply (snd (Crx_forceReset w)) = Rejected e" "\<not> isAlreadyStarted e" for e
    using that after' [of e] refused [of e] by (simp add: forceReset_result)
  from first accepted rejected show ?thesis
    by blast
qed

theorem start_recovers_from_stale_session_witness:
  "slotOf (wantsIncognito None) stale_world = Some (Promise (Inr 0)) \<and>
   probeFails (Promise (Inr 0)) stale_world \<and>
   wf stale_world \<and>
   nextReply (snd (Crx_forceReset stale_world)) = Resolved Undefined \<and>
   sent (snd (Crx_forceReset stale_world)) = [StartRequest emptyStartOptions, CloseRequest 0] \<and>
   map_option fst (Crx_start (Suc (Suc 0)) None stale_world) = Some (Inr (Suc 0))"
proof -
  have slot: "slotOf (wantsIncognito None) stale_world = Some (Promise (Inr 0))"
    by (simp add: stale_world_def started_world_def afterStarted_def quiet_world_def
        setSlot_def slotOf_def wantsIncognito_def)
  have probe: "probeFails (Promise (Inr 0)) stale_world"
    by (simp add: probeFails_def stale_world_def)
  have wf: "wf stale_world"
    by (simp add: wf_def slot_ok_def stale_world_def started_world_def afterStarted_def
        quiet_world_def setSlot_def wantsIncognito_def onCloseOf_def)
  have reply: "nextReply (snd (Crx_forceReset stale_world)) = Resolved Undefined"
    by (simp add: forceReset_result afterReset_def nextReply_def stale_world_def
        started_world_def afterStarted_def quiet_world_def setSlot_def wantsIncognito_def)
  have nxt: "nextApp stale_world = Suc 0"
    by (simp add: stale_world_def started_world_def afterStarted_def quiet_world_def
        setSlot_def wantsIncognito_def)
  have log: "sent stale_world = [StartRequest emptyStartOptions] \<and>
      held (crxAppPromise stale_world) = [0] \<and> held (incognitoCrxPromise stale_world) = []"
    by (simp add: stale_world_def started_world_def afterStarted_def quiet_world_def
        setSlot_def wantsIncognito_def orEmpty_def held_def)
  from start_recovers_from_stale_session [OF slot probe wf, of 0] reply nxt log
  have "sent (snd (Crx_forceReset stale_world)) = [StartRequest emptyStartOptions, CloseRequest 0]"
    and "map_option fst (Crx_start (Suc (Suc 0)) None stale_world) = Some (Inr (Suc 0))"
    by (auto split: option.splits)
  with slot probe wf reply show ?thesis
    by simp
qed

text \<open>
  C2, as stated, fails: with the slot occupied and the probe failing, \<^verbatim>\<open>start\<close> resets
  and retries, but the caller gets no session when the host rejects the retried start
  request; the failure of the host comes back instead.
\<close>

theorem stale_start_refused_counterexample:
  "slotOf (wantsIncognito None) stale_refusing_world = Some (Promise (Inr 0)) \<and>
   probeFails (Promise (Inr 0)) stale_refusing_world \<and>
   map_option fst (Crx_start (Suc (Suc 0)) None stale_refusing_world) =
     Some (Inl (Error ''Extension context invalidated'')) \<and>
   map_option fst (Crx_start (Suc (Suc (Suc 0))) None stale_refusing_world) =
     Some (Inl (Error ''Extension context invalidated''))"
proof -
  have slot: "slotOf (wantsIncognito None) stale_refusing_world = Some (Promise (Inr 0))"
    by (simp add: stale_refusing_world_def stale_world_def started_world_def afterStarted_def
        quiet_world_def setSlot_def slotOf_def wantsIncognito_def)
  have pages: "contextPages stale_refusing_world 0 = Inl (Error ''Target closed'')"
    by (simp add: stale_refusing_world_def stale_world_def)
  have probe: "probeFails (Promise (Inr 0)) stale_refusing_world"
    by (simp add: probeFails_def pages)
  have empty: "slotOf (wantsIncognito None) (afterReset stale_refusing_world) = None"
    by (simp add: slotOf_def afterReset_def)
  have reply: "nextReply (afterReset stale_refusing_world) =
      Rejected (Error ''Extension context invalidated'')"
    by (simp add: nextReply_def afterReset_def stale_refusing_world_def)
  have other: "\<not> isAlreadyStarted (Error ''Extension context invalidated'')"
    by (simp add: isAlreadyStarted_def)
  have retry: "Crx_start (Suc k) None stale_refusing_world =
      Crx_start k None (afterReset stale_refusing_world)" for k
    using slot pages by (simp add: start_unfold del: Crx_start.simps)
  have fail: "map_option fst (Crx_start (Suc k) None (afterReset stale_refusing_world)) =
      Some (Inl (Error ''Extension context invalidated''))" for k
    using empty reply other by (simp add: start_unfold del: Crx_start.simps)
  from retry [of "Suc 0"] retry [of "Suc (Suc 0)"] fail [of 0] fail [of "Suc 0"] slot probe
  show ?thesis
    by simp
qed

text \<open>
  C4 (amended). When \<^verbatim>\<open>start\<close> finds the slot of its mode empty and the host rejects
  the start request with a failure whose message does not contain \<^verbatim>\<open>already started\<close>,
  the caller gets that failure. The slot is not cleared: it keeps the rejected promise, so
  \<^verbatim>\<open>get\<close> for the mode rejects with the same failure, and the next \<^verbatim>\<open>start\<close> for the
  mode goes through \<^verbatim>\<open>forceReset\<close> before it starts afresh from an empty slot.
\<close>

theorem failed_start_keeps_rejected_promise:
  assumes "slotOf (wantsIncognito options) w = None"
    and "nextReply w = Rejected e"
    and "\<not> isAlreadyStarted e"
  shows "(case Crx_start (Suc fuel) options w of
            None \<Rightarrow> False
          | Some (r, w') \<Rightarrow>
              r = Inl e \<and>
              slotOf (wantsIncognito options) w' = Some (Promise (Inl e)) \<and>
              Crx_get (Some (wantsIncognito options)) w' = (Inl e, w') \<and>
              Crx_start (Suc fuel') options w' =
                Crx_start fuel' options (snd (Crx_forceReset w')) \<and>
              slotOf (wantsIncognito options) (snd (Crx_forceReset w')) = None)"
proof -
  let ?w' = "afterRejected options e w"
  have res: "Crx_start (Suc fuel) options w = Some (Inl e, ?w')"
    using assms by (simp add: start_unfold del: Crx_start.simps)
  have slot: "slotOf (wantsIncognito options) ?w' = Some (Promise (Inl e))"
    by (rule slotOf_afterRejected)
  have get: "Crx_get (Some (wantsIncognito options)) ?w' = (Inl e, ?w')"
    using slot by (simp add: Crx_get_def slotOf_def async_defs split: if_splits)
  have again: "Crx_start (Suc fuel') options ?w' = Crx_start fuel' options (afterReset ?w')"
    using slot by (simp add: start_unfold del: Crx_start.simps)
  have empty: "slotOf (wantsIncognito options) (afterReset ?w') = None"
    by (simp add: slotOf_def afterReset_def)
  show ?thesis
    using res slot get again empty by (simp add: forceReset_result)
qed

theorem failed_start_keeps_rejected_promise_witness:
  "slotOf (wantsIncognito None) refusing_world = None \<and>
   nextReply refusing_world = Rejected (Error ''Extension context invalidated'') \<and>
   \<not> isAlreadyStarted (Error ''Extension context invalidated'') \<and>
   map_option fst (Crx_start (Suc 0) None refusing_world) =
     Some (Inl (Error ''Extension context invalidated''))"
proof -
  have slot: "slotOf (wantsIncognito None) refusing_world = None"
    by (simp add: refusing_world_def quiet_world_def slotOf_def wantsIncognito_def)
  have reply: "nextReply refusing_world = Rejected (Error ''Extension context invalidated'')"
    by (simp add: refusing_world_def nextReply_def)
  have other: "\<not> isAlreadyStarted (Error ''Extension context invalidated'')"
    by (simp add: isAlreadyStarted_def)
  from failed_start_keeps_rejected_promise [OF slot reply other, of 0 0]
  have "map_option fst (Crx_start (Suc 0) None refusing_world) =
      Some (Inl (Error ''Extension context invalidated''))"
    by (auto split: option.splits)
  with slot reply other show ?thesis
    by simp
qed

text \<open>
  C4, as stated, fails: after a failed start the slot is not empty, and \<^verbatim>\<open>get\<close> does
  not report absent but rejects.
\<close>

theorem failed_start_clears_slot_counterexample:
  "crxAppPromise (snd (the (Crx_start (Suc 0) None refusing_world))) =
     Some (Promise (Inl (Error ''Extension context invalidated''))) \<and>
   fst (Crx_get None (snd (the (Crx_start (Suc 0) None refusing_world)))) =
     Inl (Error ''Extension context invalidated'')"
proof -
  have slot: "slotOf (wantsIncognito None) refusing_world = None"
    by (simp add: refusing_world_def quiet_world_def slotOf_def wantsIncognito_def)
  have reply: "nextReply refusing_world = Rejected (Error ''Extension context invalidated'')"
    by (simp add: refusing_world_def nextReply_def)
  have other: "\<not> isAlreadyStarted (Error ''Extension context invalidated'')"
    by (simp add: isAlreadyStarted_def)
  have "Crx_start (Suc 0) None refusing_world =
      Some (Inl (Error ''Extension context invalidated''),
            afterRejected None (Error ''Extension context invalidated'') refusing_world)"
    using slot reply other by (simp add: start_unfold del: Crx_start.simps)
  then show ?thesis
    by (simp add: afterRejected_def setSlot_def wantsIncognito_def Crx_get_def async_defs)
qed

text \<open>
  C5. \<^verbatim>\<open>forceReset\<close> never rejects. Its first part, which runs before anything is
  awaited, saves the two promises and empties both slots without sending a request. The
  closing of a saved promise always succeeds, whatever the promise settles with and
  whatever the host answers, and leaves the slots alone; so both slots are empty in the
  end, and the requests sent are the close requests for the sessions that were held. With
  both slots empty from the start, \<^verbatim>\<open>forceReset\<close> changes nothing.
\<close>

theorem forceReset_clears_then_closes:
  "fst (Crx_forceReset w) = Inr () \<and>
   fst (Crx_forceReset_clear w) = (crxAppPromise w, incognitoCrxPromise w) \<and>
   crxAppPromise (snd (Crx_forceReset_clear w)) = None \<and>
   incognitoCrxPromise (snd (Crx_forceReset_clear w)) = None \<and>
   sent (snd (Crx_forceReset_clear w)) = sent w \<and>
   (\<forall>old w1. fst (Crx_forceReset_closeOld old w1) = Inr () \<and>
      crxAppPromise (snd (Crx_forceReset_closeOld old w1)) = crxAppPromise w1 \<and>
      incognitoCrxPromise (snd (Crx_forceReset_closeOld old w1)) = incognitoCrxPromise w1 \<and>
      sent (snd (Crx_forceReset_closeOld old w1)) = sent w1 @ map CloseRequest (held old)) \<and>
   crxAppPromise (snd (Crx_forceReset w)) = None \<and>
   incognitoCrxPromise (snd (Crx_forceReset w)) = None \<and>
   sent (snd (Crx_forceReset w)) =
     sent w @ map CloseRequest (held (crxAppPromise w) @ held (incognitoCrxPromise w)) \<and>
   Crx_forceReset (w\<lparr>crxAppPromise := None, incognitoCrxPromise := None\<rparr>) =
     (Inr (), w\<lparr>crxAppPromise := None, incognitoCrxPromise := None\<rparr>)"
  by (simp add: forceReset_result closeOld_result afterReset_def Crx_forceReset_clear_def
      held_def)


text \<open>
  C3. The claim is that one call of \<^verbatim>\<open>start\<close> resets and retries at most once. With a
  host that rejects every start request with \<^verbatim>\<open>crxApplication is already started\<close>,
  \<^verbatim>\<open>start\<close> on an empty controller does not return, however many invocations it is
  allowed: each rejected start is taken for the local condition, fails the probe of its
  own rejected promise, resets and calls \<^verbatim>\<open>start\<close> again.
\<close>

theorem start_never_returns:
  "Crx_start fuel None already_started_world = None"
proof -
  have "slotOf (wantsIncognito None) already_started_world = None"
    by (simp add: already_started_world_def quiet_world_def slotOf_def wantsIncognito_def)
  moreover have "\<forall>k. \<exists>e. replies already_started_world k = Rejected e \<and> isAlreadyStarted e"
    by (simp add: already_started_world_def local_already_started)
  ultimately show ?thesis
    by (rule start_loops)
qed

text \<open>
  The \<^verbatim>\<open>close\<close> of a session that a slot holds, in a world where every held session
  carries the handler of its slot.
\<close>

lemma held_session_close_empties_slot:
  assumes "wf w"
    and "slotOf inc w = Some p"
    and "outcome p = Inr a"
  shows "slotOf inc (CrxApplication_on a ContextCloseEvent w) = None \<and>
         Crx_get (Some inc) (CrxApplication_on a ContextCloseEvent w) =
           (Inr None, CrxApplication_on a ContextCloseEvent w) \<and>
         slotOf (\<not> inc) (CrxApplication_on a ContextCloseEvent w) = slotOf (\<not> inc) w \<and>
         emitted (CrxApplication_on a ContextCloseEvent w) =
           emitted w @ [(AppEmitter a, ''close'', [])]"
proof -
  have ls: "listeners w a = [(''close'', onCloseOf inc)]"
    using assms
    by (auto simp: wf_def slot_ok_def slotOf_def onCloseOf_def split: if_splits)
  have w': "CrxApplication_on a ContextCloseEvent w =
      run_listener (onCloseOf inc) (w\<lparr>emitted := emitted w @ [(AppEmitter a, ''close'', [])]\<rparr>)"
    by (simp add: CrxApplication_on_def app_emit_def ls)
  show ?thesis
    unfolding w'
    by (cases inc) (simp_all add: run_listener_def onCloseOf_def slotOf_def Crx_get_def ret_def)
qed

text \<open>
  C6. Let \<^verbatim>\<open>start\<close> for a mode return a session \<open>a\<close>, from a world as the controller's
  methods leave it (\<open>wf\<close>; a new controller is one). Then \<open>a\<close> sits in the slot of that
  mode and carries exactly the \<^verbatim>\<open>close\<close> handler of that slot. When \<open>a\<close> then emits
  \<^verbatim>\<open>close\<close> because its context closed, with no call by anyone, the slot is empty
  afterwards, \<^verbatim>\<open>get\<close> for the mode returns \<^verbatim>\<open>undefined\<close>, and the slot of the other mode
  is as it was.
\<close>

theorem started_session_close_empties_slot:
  assumes "wf w"
    and "Crx_start fuel options w = Some (Inr a, w1)"
  shows "slotOf (wantsIncognito options) w1 = Some (Promise (Inr a)) \<and>
         listeners w1 a = [(''close'', onCloseOf (wantsIncognito options))] \<and>
         slotOf (wantsIncognito options) (CrxApplication_on a ContextCloseEvent w1) = None \<and>
         Crx_get (Some (wantsIncognito options)) (CrxApplication_on a ContextCloseEvent w1) =
           (Inr None, CrxApplication_on a ContextCloseEvent w1) \<and>
         slotOf (\<not> wantsIncognito options) (CrxApplication_on a ContextCloseEvent w1) =
           slotOf (\<not> wantsIncognito options) w1 \<and>
         emitted (CrxApplication_on a ContextCloseEvent w1) =
           emitted w1 @ [(AppEmitter a, ''close'', [])]"
proof -
  have wf1: "wf w1"
    using assms(2,1) by (rule start_wf)
  have slot: "slotOf (wantsIncognito options) w1 = Some (Promise (Inr a))"
    using assms(2) by (rule start_slot)
  have out: "outcome (Promise (Inr a :: error + app_id)) = Inr a"
    by simp
  have ls: "listeners w1 a = [(''close'', onCloseOf (wantsIncognito options))]"
    using wf1 slot
    by (auto simp: wf_def slot_ok_def slotOf_def onCloseOf_def split: if_splits)
  from held_session_close_empties_slot [OF wf1 slot out] slot ls show ?thesis
    by simp
qed

theorem started_session_close_empties_slot_witness:
  "wf quiet_world \<and>
   Crx_start (Suc 0) None quiet_world = Some (Inr 0, started_world) \<and>
   slotOf False started_world = Some (Promise (Inr 0)) \<and>
   slotOf False (CrxApplication_on 0 ContextCloseEvent started_world) = None \<and>
   fst (Crx_get (Some False) (CrxApplication_on 0 ContextCloseEvent started_world)) = Inr None \<and>
   slotOf True (CrxApplication_on 0 ContextCloseEvent started_world) = slotOf True started_world"
proof -
  have wf: "wf quiet_world"
    by (rule wf_empty) (simp_all add: quiet_world_def)
  have "slotOf (wantsIncognito None) quiet_world = None"
    and "nextReply quiet_world = Resolved Undefined"
    and "nextApp quiet_world = 0"
    by (simp_all add: slotOf_def nextReply_def quiet_world_def)
  then have start: "Crx_start (Suc 0) None quiet_world = Some (Inr 0, started_world)"
    by (simp add: start_unfold started_world_def del: Crx_start.simps)
  have inc: "wantsIncognito None = False"
    by (simp add: wantsIncognito_def)
  from started_session_close_empties_slot [OF wf start] wf start inc show ?thesis
    by simp
qed

text \<open>
  C7. The \<^verbatim>\<open>close\<close> handler that \<^verbatim>\<open>start\<close> registers clears its slot whatever the slot
  holds by then. Let a session \<open>a\<close> be held for a mode, let \<^verbatim>\<open>forceReset\<close> discard it and
  let \<^verbatim>\<open>start\<close> for the same mode then return a session \<open>b\<close>. Then \<open>b\<close> is another
  session and sits in the slot; and when the context of \<open>a\<close> closes afterwards, the slot
  is emptied and \<^verbatim>\<open>get\<close> returns \<^verbatim>\<open>undefined\<close>, although the only event emitted since
  the beginning is the \<^verbatim>\<open>close\<close> of \<open>a\<close>.
\<close>

theorem stale_close_event_empties_new_slot:
  assumes "wf w"
    and "slotOf (wantsIncognito options) w = Some p"
    and "outcome p = Inr a"
    and "Crx_forceReset w = (u, w1)"
    and "Crx_start fuel options w1 = Some (Inr b, w2)"
  shows "b \<noteq> a \<and>
         slotOf (wantsIncognito options) w2 = Some (Promise (Inr b)) \<and>
         slotOf (wantsIncognito options) (CrxApplication_on a ContextCloseEvent w2) = None \<and>
         Crx_get (Some (wantsIncognito options)) (CrxApplication_on a ContextCloseEvent w2) =
           (Inr None, CrxApplication_on a ContextCloseEvent w2) \<and>
         emitted (CrxApplication_on a ContextCloseEvent w2) =
           emitted w @ [(AppEmitter a, ''close'', [])]"
proof -
  let ?inc = "wantsIncognito options"
  have w1: "w1 = afterReset w"
    using assms(4) by (simp add: forceReset_result)
  have a: "a < nextApp w" "listeners w a = [(''close'', onCloseOf ?inc)]"
    using assms(1-3)
    by (auto simp: wf_def slot_ok_def slotOf_def onCloseOf_def split: if_splits)
  have empty: "slotOf ?inc w1 = None"
    by (simp add: w1 afterReset_def slotOf_def)
  have same: "nextApp w1 = nextApp w" "listeners w1 = listeners w" "emitted w1 = emitted w"
    by (simp_all add: w1 afterReset_def)
  from start_from_empty_is_new [OF empty assms(5)] a(1) same(1)
  have neq: "b \<noteq> a"
    by simp
  have slot: "slotOf ?inc w2 = Some (Promise (Inr b))"
    using assms(5) by (rule start_slot)
  from start_keeps [OF assms(5)] a same
  have w2: "listeners w2 a = [(''close'', onCloseOf ?inc)]" "emitted w2 = emitted w"
    by simp_all
  have w3: "CrxApplication_on a ContextCloseEvent w2 =
      run_listener (onCloseOf ?inc) (w2\<lparr>emitted := emitted w @ [(AppEmitter a, ''close'', [])]\<rparr>)"
    by (simp add: CrxApplication_on_def app_emit_def w2)
  have "slotOf ?inc (CrxApplication_on a ContextCloseEvent w2) = None \<and>
      Crx_get (Some ?inc) (CrxApplication_on a ContextCloseEvent w2) =
        (Inr None, CrxApplication_on a ContextCloseEvent w2) \<and>
      emitted (CrxApplication_on a ContextCloseEvent w2) =
        emitted w @ [(AppEmitter a, ''close'', [])]"
    unfolding w3
    by (cases ?inc) (simp_all add: run_listener_def onCloseOf_def slotOf_def Crx_get_def ret_def)
  with neq slot show ?thesis
    by simp
qed

theorem stale_close_event_empties_new_slot_witness:
  "wf started_world \<and>
   slotOf (wantsIncognito None) started_world = Some (Promise (Inr 0)) \<and>
   Crx_forceReset started_world = (Inr (), afterReset started_world) \<and>
   Crx_start (Suc 0) None (afterReset started_world) = Some (Inr (Suc 0), restarted_world) \<and>
   slotOf False restarted_world = Some (Promise (Inr (Suc 0))) \<and>
   slotOf False (CrxApplication_on 0 ContextCloseEvent restarted_world) = None \<and>
   fst (Crx_get (Some False) (CrxApplication_on 0 ContextCloseEvent restarted_world)) = Inr None"
proof -
  have wf: "wf started_world"
    by (simp add: started_world_def wf_afterStarted wf_empty quiet_world_def)
  have slot: "slotOf (wantsIncognito None) started_world = Some (Promise (Inr 0))"
    by (simp add: started_world_def afterStarted_def quiet_world_def setSlot_def slotOf_def
        wantsIncognito_def)
  have out: "outcome (Promise (Inr 0 :: error + app_id)) = Inr 0"
    by simp
  have reset: "Crx_forceReset started_world = (Inr (), afterReset started_world)"
    by (rule forceReset_result)
  have "slotOf (wantsIncognito None) (afterReset started_world) = None"
    and "nextReply (afterReset started_world) = Resolved Undefined"
    and "nextApp (afterReset started_world) = Suc 0"
    by (simp_all add: afterReset_def slotOf_def nextReply_def started_world_def
        afterStarted_def quiet_world_def setSlot_def wantsIncognito_def)
  then have start: "Crx_start (Suc 0) None (afterReset started_world) =
      Some (Inr (Suc 0), restarted_world)"
    by (simp add: start_unfold restarted_world_def del: Crx_start.simps)
  have inc: "wantsIncognito None = False"
    by (simp add: wantsIncognito_def)
  from stale_close_event_empties_new_slot [OF wf slot out reset start] wf slot reset start inc
  show ?thesis
    by simp
qed

section \<open>Sessions\<close>

text \<open>
  C8 (amended). An \<^verbatim>\<open>attached\<close> event \<^verbatim>\<open>{page, tabId}\<close> on the channel is re-emitted
  as \<^verbatim>\<open>attached\<close> with the object \<^verbatim>\<open>{tabId, page}\<close>, where \<^verbatim>\<open>page\<close> is the page object
  behind the channel; a \<^verbatim>\<open>detached\<close> event \<^verbatim>\<open>{tabId}\<close> is re-emitted as \<^verbatim>\<open>detached\<close>
  with the bare number \<^verbatim>\<open>tabId\<close>; the \<^verbatim>\<open>close\<close> event of the owned context is re-emitted
  as \<^verbatim>\<open>close\<close>. Of the three, only the context's \<^verbatim>\<open>close\<close> makes the session emit
  \<^verbatim>\<open>close\<close>, and the method \<^verbatim>\<open>close()\<close> emits nothing, whatever the host answers.
\<close>

theorem session_reemits_events:
  "emitted (CrxApplication_on a (AttachedEvent page tabId) w) =
     emitted w @ [(AppEmitter a, ''attached'', [Obj [(''tabId'', Num tabId), (''page'', PageObj page)]])] \<and>
   emitted (CrxApplication_on a (DetachedEvent tabId) w) =
     emitted w @ [(AppEmitter a, ''detached'', [Num tabId])] \<and>
   emitted (CrxApplication_on a ContextCloseEvent w) = emitted w @ [(AppEmitter a, ''close'', [])] \<and>
   ((AppEmitter a, ''close'', []) \<in> set (drop (length (emitted w)) (emitted (CrxApplication_on a ev w))))
     = (ev = ContextCloseEvent) \<and>
   emitted (snd (CrxApplication_close a w)) = emitted w"
proof -
  have "emitted (snd (CrxApplication_close a w)) = emitted w"
    by (simp add: CrxApplication_close_def async_defs split: reply.splits)
  then show ?thesis
    by (cases ev)
       (simp_all add: CrxApplication_on_def app_emit_def emitted_run_listeners from_channel_def)
qed

text \<open>
  C8, as stated, fails for \<^verbatim>\<open>detached\<close>: the payload handed to subscribers is the
  number, not the object \<^verbatim>\<open>{tabId}\<close> that came in.
\<close>

theorem detached_payload_counterexample:
  "emitted (CrxApplication_on 0 (DetachedEvent 7) quiet_world) = [(AppEmitter 0, ''detached'', [Num 7])] \<and>
   emitted (CrxApplication_on 0 (DetachedEvent 7) quiet_world) \<noteq>
     [(AppEmitter 0, ''detached'', [Obj [(''tabId'', Num 7)]])]"
  by (simp add: CrxApplication_on_def app_emit_def emitted_run_listeners quiet_world_def)

text \<open>
  C10 (amended). For every non-empty string \<open>s\<close> and all remaining options \<open>r\<close>,
  \<^verbatim>\<open>attachAll({url: s, ...r})\<close> sends the request that \<^verbatim>\<open>attachAll({url: [s], ...r})\<close>
  sends, with the one-element array as \<^verbatim>\<open>url\<close>; an absent \<^verbatim>\<open>url\<close>, or absent options,
  send no \<^verbatim>\<open>url\<close>.
\<close>

theorem attachAll_normalizes_url:
  assumes "s \<noteq> []"
  shows "sent (snd (CrxApplication_attachAll a (Some \<lparr>url = Some (UrlString s), remaining = r\<rparr>) w)) =
           sent (snd (CrxApplication_attachAll a (Some \<lparr>url = Some (UrlArray [s]), remaining = r\<rparr>) w)) \<and>
         sent (snd (CrxApplication_attachAll a (Some \<lparr>url = Some (UrlString s), remaining = r\<rparr>) w)) =
           sent w @ [AttachAllRequest a \<lparr>paramsRemaining = r, paramsUrl = Some [s]\<rparr>] \<and>
         sent (snd (CrxApplication_attachAll a (Some \<lparr>url = None, remaining = r\<rparr>) w)) =
           sent w @ [AttachAllRequest a \<lparr>paramsRemaining = r, paramsUrl = None\<rparr>] \<and>
         sent (snd (CrxApplication_attachAll a None w)) =
           sent w @ [AttachAllRequest a \<lparr>paramsRemaining = [], paramsUrl = None\<rparr>]"
  using assms
  by (simp add: CrxApplication_attachAll_def attachAll_params_def truthy_url_def async_defs
      split: reply.splits)

theorem attachAll_normalizes_url_witness:
  "''https://x'' \<noteq> [] \<and>
   sent (snd (CrxApplication_attachAll 0 (Some \<lparr>url = Some (UrlString ''https://x''), remaining = []\<rparr>) quiet_world)) =
     sent (snd (CrxApplication_attachAll 0 (Some \<lparr>url = Some (UrlArray [''https://x'']), remaining = []\<rparr>) quiet_world)) \<and>
   sent (snd (CrxApplication_attachAll 0 (Some \<lparr>url = Some (UrlString ''https://x''), remaining = []\<rparr>) quiet_world)) =
     [AttachAllRequest 0 \<lparr>paramsRemaining = [], paramsUrl = Some [''https://x'']\<rparr>]"
proof -
  have ne: "''https://x'' \<noteq> []"
    by simp
  have empty: "sent quiet_world = []"
    by (simp add: quiet_world_def)
  note normal = attachAll_normalizes_url [OF ne, of 0 "[]" quiet_world]
  from normal have same:
    "sent (snd (CrxApplication_attachAll 0 (Some \<lparr>url = Some (UrlString ''https://x''), remaining = []\<rparr>) quiet_world)) =
     sent (snd (CrxApplication_attachAll 0 (Some \<lparr>url = Some (UrlArray [''https://x'']), remaining = []\<rparr>) quiet_world))"
    by (rule conjunct1)
  from normal have
    "sent (snd (CrxApplication_attachAll 0 (Some \<lparr>url = Some (UrlString ''https://x''), remaining = []\<rparr>) quiet_world)) =
     sent quiet_world @ [AttachAllRequest 0 \<lparr>paramsRemaining = [], paramsUrl = Some [''https://x'']\<rparr>]"
    by (rule conjunct2 [THEN conjunct1])
  then have request:
    "sent (snd (CrxApplication_attachAll 0 (Some \<lparr>url = Some (UrlString ''https://x''), remaining = []\<rparr>) quiet_world)) =
     [AttachAllRequest 0 \<lparr>paramsRemaining = [], paramsUrl = Some [''https://x'']\<rparr>]"
    by (simp only: empty append_Nil)
  from ne same request show ?thesis
    by (intro conjI)
qed

text \<open>
  C10, as stated for every string, fails at the empty string: given as a string it is
  dropped and no \<^verbatim>\<open>url\<close> is sent, given in an array it is sent.
\<close>

theorem attachAll_empty_url_counterexample:
  "sent (snd (CrxApplication_attachAll 0 (Some \<lparr>url = Some (UrlString ''''), remaining = []\<rparr>) quiet_world)) =
     [AttachAllRequest 0 \<lparr>paramsRemaining = [], paramsUrl = None\<rparr>] \<and>
   sent (snd (CrxApplication_attachAll 0 (Some \<lparr>url = Some (UrlArray ['''']), remaining = []\<rparr>) quiet_world)) =
     [AttachAllRequest 0 \<lparr>paramsRemaining = [], paramsUrl = Some ['''']\<rparr>] \<and>
   sent (snd (CrxApplication_attachAll 0 (Some \<lparr>url = Some (UrlString ''''), remaining = []\<rparr>) quiet_world)) \<noteq>
     sent (snd (CrxApplication_attachAll 0 (Some \<lparr>url = Some (UrlArray ['''']), remaining = []\<rparr>) quiet_world))"
  by (simp add: CrxApplication_attachAll_def attachAll_params_def truthy_url_def async_defs
      quiet_world_def nextReply_def)

section \<open>The recorder\<close>

lemma recorder_step_spec:
  "(CrxRecorder_isHidden a (recorder_step a act w), CrxRecorder_mode a (recorder_step a act w)) =
     spec_recorder_step act (CrxRecorder_isHidden a w, CrxRecorder_mode a w)"
proof (cases act)
  case (Arrives ev)
  then show ?thesis
    by (cases ev)
       (simp_all add: recorder_step_def CrxRecorder_on_def recorder_emit_def
         CrxRecorder_isHidden_def CrxRecorder_mode_def)
qed (simp_all add: recorder_step_def CrxRecorder_isHidden_def CrxRecorder_mode_def
      CrxRecorder_setMode_def CrxRecorder_show_def CrxRecorder_hide_def CrxRecorder_list_def
      CrxRecorder_load_def CrxRecorder_run_def async_defs split: reply.splits)

text \<open>
  C9. The recorder of a new session is hidden and in mode \<^verbatim>\<open>none\<close>. Over every sequence
  of method calls and arriving events, \<^verbatim>\<open>isHidden()\<close> and \<^verbatim>\<open>mode()\<close> follow the state
  machine of the specification, in which only the three events change the state; and
  \<^verbatim>\<open>setMode\<close>, \<^verbatim>\<open>show\<close> and \<^verbatim>\<open>hide\<close> leave both as they were, whatever the host
  answers.
\<close>

theorem recorder_state_follows_events:
  "CrxRecorder_isHidden (fst (new_CrxApplication w)) (snd (new_CrxApplication w)) = True \<and>
   CrxRecorder_mode (fst (new_CrxApplication w)) (snd (new_CrxApplication w)) = ''none'' \<and>
   (CrxRecorder_isHidden a (recorder_run a acts w), CrxRecorder_mode a (recorder_run a acts w)) =
     spec_recorder acts (CrxRecorder_isHidden a w, CrxRecorder_mode a w) \<and>
   CrxRecorder_isHidden a (snd (CrxRecorder_setMode a m w)) = CrxRecorder_isHidden a w \<and>
   CrxRecorder_mode a (snd (CrxRecorder_setMode a m w)) = CrxRecorder_mode a w \<and>
   CrxRecorder_isHidden a (snd (CrxRecorder_show a options w)) = CrxRecorder_isHidden a w \<and>
   CrxRecorder_mode a (snd (CrxRecorder_show a options w)) = CrxRecorder_mode a w \<and>
   CrxRecorder_isHidden a (snd (CrxRecorder_hide a w)) = CrxRecorder_isHidden a w \<and>
   CrxRecorder_mode a (snd (CrxRecorder_hide a w)) = CrxRecorder_mode a w"
proof -
  have run: "(CrxRecorder_isHidden a (recorder_run a acts w), CrxRecorder_mode a (recorder_run a acts w)) =
     spec_recorder acts (CrxRecorder_isHidden a w, CrxRecorder_mode a w)"
  proof (induction acts arbitrary: w)
    case Nil
    then show ?case by simp
  next
    case (Cons act acts)
    show ?case
      by (simp add: Cons.IH recorder_step_spec)
  qed
  have new: "CrxRecorder_isHidden (fst (new_CrxApplication w)) (snd (new_CrxApplication w)) = True \<and>
      CrxRecorder_mode (fst (new_CrxApplication w)) (snd (new_CrxApplication w)) = ''none''"
    by (simp add: new_CrxApplication_def CrxRecorder_isHidden_def CrxRecorder_mode_def)
  have cmds: "CrxRecorder_isHidden a (snd (CrxRecorder_setMode a m w)) = CrxRecorder_isHidden a w \<and>
      CrxRecorder_mode a (snd (CrxRecorder_setMode a m w)) = CrxRecorder_mode a w \<and>
      CrxRecorder_isHidden a (snd (CrxRecorder_show a options w)) = CrxRecorder_isHidden a w \<and>
      CrxRecorder_mode a (snd (CrxRecorder_show a options w)) = CrxRecorder_mode a w \<and>
      CrxRecorder_isHidden a (snd (CrxRecorder_hide a w)) = CrxRecorder_isHidden a w \<and>
      CrxRecorder_mode a (snd (CrxRecorder_hide a w)) = CrxRecorder_mode a w"
    by (simp add: CrxRecorder_isHidden_def CrxRecorder_mode_def CrxRecorder_setMode_def
        CrxRecorder_show_def CrxRecorder_hide_def async_defs split: reply.splits)
  from run new cmds show ?thesis
    by simp
qed

end
